theory Spec2Isabelle
  imports Main
begin

section \<open>Strings\<close>

text \<open>
  The program trims with \<^verbatim>\<open>std::regex_replace\<close> on the patterns \<^verbatim>\<open>^\s+\<close> and
  \<^verbatim>\<open>\s+$\<close>. In the default (ECMAScript, not multiline) grammar and the "C" locale the
  class \<^verbatim>\<open>\s\<close> is the set of the six bytes space, \<^verbatim>\<open>\t \n \v \f \r\<close>, and the two
  patterns remove the leading and the trailing run of such bytes.
\<close>

definition isspace :: "char \<Rightarrow> bool" where
  "isspace c = (c = CHR '' '' \<or> c = CHR 0x09 \<or> c = CHR 0x0A \<or> c = CHR 0x0B
                \<or> c = CHR 0x0C \<or> c = CHR 0x0D)"

definition ltrim :: "string \<Rightarrow> string" where
  "ltrim s = dropWhile isspace s"

definition rtrim :: "string \<Rightarrow> string" where
  "rtrim s = rev (dropWhile isspace (rev s))"

definition trim :: "string \<Rightarrow> string" where
  "trim s = ltrim (rtrim s)"

text \<open>\<^verbatim>\<open>s.find_first_of("=", 0)\<close>: the index of the first occurrence, \<open>None\<close> for \<^verbatim>\<open>npos\<close>.\<close>

fun find_first_of :: "char \<Rightarrow> string \<Rightarrow> nat option" where
  "find_first_of c [] = None"
| "find_first_of c (x # xs) =
     (if x = c then Some 0 else map_option Suc (find_first_of c xs))"

section \<open>Matching a line against a key\<close>

text \<open>
  The lambda \<^verbatim>\<open>lineHasKey\<close>. When the delimiter is found the line is not empty, so
  \<^verbatim>\<open>line.size() - 1\<close> does not wrap and the subtraction on \<open>nat\<close> agrees with it.
\<close>

definition lineHasKey :: "string \<Rightarrow> string \<Rightarrow> nat option" where
  "lineHasKey line key =
     (case find_first_of CHR ''='' line of
        None \<Rightarrow> None
      | Some eq_pos \<Rightarrow>
          if 0 < eq_pos \<and> eq_pos < length line - 1 \<and> trim (take eq_pos line) = key
          then Some eq_pos else None)"

text \<open>
  The test \<^verbatim>\<open>input_line[0] == '#'\<close> of read mode. On the empty string
  \<^verbatim>\<open>operator[](0)\<close> yields the terminating NUL, which is not \<^verbatim>\<open>#\<close>.
\<close>

definition is_comment :: "string \<Rightarrow> bool" where
  "is_comment line = (case line of [] \<Rightarrow> False | c # _ \<Rightarrow> c = CHR ''#'')"

section \<open>Command line\<close>

datatype ModifyKeysMode = mode_read | mode_write | mode_remove | mode_undefined

text \<open>
  \<^verbatim>\<open>getopt\<close> is a library function: an invocation is given by \<^verbatim>\<open>argc\<close>, the sequence of
  (option character, \<^verbatim>\<open>optarg\<close>) pairs that the successive calls of
  \<^verbatim>\<open>getopt(argc, argv, "hvf:wrd")\<close> return, and the operands
  \<^verbatim>\<open>argv[optind], ..., argv[argc - 1]\<close> left when it returns \<open>-1\<close>.
\<close>

record invocation =
  argc :: nat
  options :: "(char \<times> string) list"
  operands :: "string list"

text \<open>
  The \<^verbatim>\<open>while ((opt = getopt(...)) != -1)\<close> loop. \<open>Inl\<close> is an early \<^verbatim>\<open>return\<close> of
  \<^verbatim>\<open>main\<close> with that value; \<^verbatim>\<open>snprintf(file_to_parse_name, 256, "%s", optarg)\<close> keeps at
  most 255 bytes. The verbosity flag only adds diagnostics on the error stream, which is
  not modelled.
\<close>

fun getopt_loop ::
  "(char \<times> string) list \<Rightarrow> string \<Rightarrow> ModifyKeysMode \<Rightarrow> int + (string \<times> ModifyKeysMode)"
where
  "getopt_loop [] file_to_parse_name mode = Inr (file_to_parse_name, mode)"
| "getopt_loop ((opt, optarg) # rest) file_to_parse_name mode =
     (if opt = CHR ''h'' then Inl 0
      else if opt = CHR ''v'' then getopt_loop rest file_to_parse_name mode
      else if opt = CHR ''f'' then getopt_loop rest (take 255 optarg) mode
      else if opt = CHR ''w'' then
        (if mode \<noteq> mode_undefined \<and> mode \<noteq> mode_write then Inl (- 1)
         else getopt_loop rest file_to_parse_name mode_write)
      else if opt = CHR ''r'' then
        (if mode \<noteq> mode_undefined \<and> mode \<noteq> mode_read then Inl (- 1)
         else getopt_loop rest file_to_parse_name mode_read)
      else if opt = CHR ''d'' then
        (if mode \<noteq> mode_undefined \<and> mode \<noteq> mode_remove then Inl (- 1)
         else getopt_loop rest file_to_parse_name mode_remove)
      else getopt_loop rest file_to_parse_name mode)"

text \<open>
  The loop over the operands (\<^verbatim>\<open>for (int i = optind; i < argc; ++i)\<close>). \<open>None\<close> is the
  \<^verbatim>\<open>return -1\<close> on a malformed operand; otherwise the two lists
  \<^verbatim>\<open>keysToReadOrDelete\<close> and \<^verbatim>\<open>keysToWrite\<close> in \<^verbatim>\<open>emplace_back\<close> order.
\<close>

fun read_arguments ::
  "ModifyKeysMode \<Rightarrow> string list \<Rightarrow> (string list \<times> (string \<times> string) list) option"
where
  "read_arguments mode [] = Some ([], [])"
| "read_arguments mode (arg # rest) =
     (let eq_pos = find_first_of CHR ''='' arg in
      if mode = mode_read \<or> mode = mode_remove then
        (if eq_pos = None then
           map_option (\<lambda>(keys, kvs). (trim arg # keys, kvs)) (read_arguments mode rest)
         else None)
      else if mode = mode_write then
        (case eq_pos of
           None \<Rightarrow> None
         | Some p \<Rightarrow>
             if 0 < p \<and> p < length arg - 1 then
               map_option (\<lambda>(keys, kvs). (keys, (trim (take p arg), trim (drop (p + 1) arg)) # kvs))
                 (read_arguments mode rest)
             else None)
      else read_arguments mode rest)"

text \<open>
  \<^verbatim>\<open>std::list::unique(pred)\<close>: from every run of consecutive elements that \<^verbatim>\<open>pred\<close>
  relates to the first of the run, all but that first are erased.
\<close>

fun unique :: "('a \<Rightarrow> 'a \<Rightarrow> bool) \<Rightarrow> 'a list \<Rightarrow> 'a list" where
  "unique p [] = []"
| "unique p [x] = [x]"
| "unique p (x # y # ys) =
     (if p x y then unique p (x # ys) else x # unique p (y # ys))"

section \<open>Read mode\<close>

text \<open>\<^verbatim>\<open>std::map::emplace\<close> inserts only when the key is not yet present.\<close>

definition emplace :: "(string \<rightharpoonup> string) \<Rightarrow> string \<Rightarrow> string \<Rightarrow> (string \<rightharpoonup> string)" where
  "emplace m k v = (case m k of None \<Rightarrow> m(k \<mapsto> v) | Some _ \<Rightarrow> m)"

text \<open>The inner loop over the keys, for one line.\<close>

fun read_line :: "string \<Rightarrow> string list \<Rightarrow> (string \<rightharpoonup> string) \<Rightarrow> (string \<rightharpoonup> string)" where
  "read_line input_line [] keyValueMap = keyValueMap"
| "read_line input_line (key # keys) keyValueMap =
     (case lineHasKey input_line key of
        Some eq_pos \<Rightarrow>
          read_line input_line keys
            (emplace keyValueMap key (trim (drop (eq_pos + 1) input_line)))
      | None \<Rightarrow> read_line input_line keys keyValueMap)"

text \<open>The \<^verbatim>\<open>while (std::getline(...))\<close> loop of read mode.\<close>

fun read_scan :: "string list \<Rightarrow> string list \<Rightarrow> (string \<rightharpoonup> string) \<Rightarrow> (string \<rightharpoonup> string)" where
  "read_scan [] keys keyValueMap = keyValueMap"
| "read_scan (input_line # rest) keys keyValueMap =
     (if is_comment input_line then read_scan rest keys keyValueMap
      else read_scan rest keys (read_line input_line keys keyValueMap))"

text \<open>
  The values printed on the standard output, one per \<^verbatim>\<open>std::endl\<close>;
  \<^verbatim>\<open>keyValueMap[key]\<close> is the empty string for an absent key.
\<close>

definition read_mode :: "string list \<Rightarrow> string list \<Rightarrow> string list" where
  "read_mode all_lines keys =
     (let keyValueMap = read_scan all_lines keys Map.empty
      in map (\<lambda>key. case keyValueMap key of None \<Rightarrow> [] | Some v \<Rightarrow> v) keys)"

section \<open>Write mode\<close>

definition key_value_line :: "string \<times> string \<Rightarrow> string" where
  "key_value_line kv = fst kv @ ''='' @ snd kv"

text \<open>
  The inner loop over the pending pairs, for one line: a matching pair replaces the line
  and is erased, and the following pairs are tested against the replaced line.
\<close>

fun write_line :: "string \<Rightarrow> (string \<times> string) list \<Rightarrow> string \<times> (string \<times> string) list" where
  "write_line line [] = (line, [])"
| "write_line line (kv # rest) =
     (if lineHasKey line (fst kv) \<noteq> None then write_line (key_value_line kv) rest
      else (case write_line line rest of (line', rest') \<Rightarrow> (line', kv # rest')))"

text \<open>The outer loop over the lines, threading the pending pairs.\<close>

fun write_scan ::
  "string list \<Rightarrow> (string \<times> string) list \<Rightarrow> string list \<times> (string \<times> string) list"
where
  "write_scan [] keysToWrite = ([], keysToWrite)"
| "write_scan (line # rest) keysToWrite =
     (case write_line line keysToWrite of
        (line', pending) \<Rightarrow>
          (case write_scan rest pending of
             (rest', pending') \<Rightarrow> (line' # rest', pending')))"

definition write_mode :: "string list \<Rightarrow> (string \<times> string) list \<Rightarrow> string list" where
  "write_mode all_file_lines keysToWrite =
     (case write_scan all_file_lines keysToWrite of
        (replaced, pending) \<Rightarrow> replaced @ map key_value_line pending)"

section \<open>Delete mode\<close>

text \<open>The inner loop: every line that has the key is erased.\<close>

fun remove_key :: "string \<Rightarrow> string list \<Rightarrow> string list" where
  "remove_key key [] = []"
| "remove_key key (line # rest) =
     (if lineHasKey line key \<noteq> None then remove_key key rest
      else line # remove_key key rest)"

fun remove_keys :: "string list \<Rightarrow> string list \<Rightarrow> string list" where
  "remove_keys [] all_file_lines = all_file_lines"
| "remove_keys (key # keys) all_file_lines = remove_keys keys (remove_key key all_file_lines)"

definition remove_mode :: "string list \<Rightarrow> string list \<Rightarrow> string list" where
  "remove_mode all_file_lines keys = remove_keys (unique (=) keys) all_file_lines"

section \<open>Files and the whole program\<close>

text \<open>
  The file system as the program sees it: the bytes of the file at a path when it can be
  opened for reading, and whether a path can be opened for writing.
\<close>

record filesystem =
  contents :: "string \<Rightarrow> string option"
  writable :: "string \<Rightarrow> bool"

text \<open>
  Repeated \<^verbatim>\<open>std::getline\<close> until it fails: lines end at a newline, and a last line
  without one is still delivered when it is not empty.
\<close>

fun getlines_from :: "string \<Rightarrow> string \<Rightarrow> string list" where
  "getlines_from cur [] = (if cur = [] then [] else [cur])"
| "getlines_from cur (c # cs) =
     (if c = CHR 0x0A then cur # getlines_from [] cs else getlines_from (cur @ [c]) cs)"

definition getlines :: "string \<Rightarrow> string list" where
  "getlines bytes = getlines_from [] bytes"

text \<open>\<^verbatim>\<open>output_file << line << std::endl\<close> for every line.\<close>

definition persist :: "string list \<Rightarrow> string" where
  "persist all_file_lines = concat (map (\<lambda>line. line @ [CHR 0x0A]) all_file_lines)"

datatype output_handle = NotOpened | OpenFailed | Opened

record outcome =
  return_value :: int
  stdout :: "string list"
  output_file :: output_handle
  disk :: filesystem

definition finish :: "int \<Rightarrow> filesystem \<Rightarrow> outcome" where
  "finish rc fs = \<lparr>return_value = rc, stdout = [], output_file = NotOpened, disk = fs\<rparr>"

text \<open>The part of \<^verbatim>\<open>main\<close> under the comment \<^verbatim>\<open>// work on the file\<close>.\<close>

definition work_on_file ::
  "ModifyKeysMode \<Rightarrow> string \<Rightarrow> string list \<Rightarrow> (string \<times> string) list \<Rightarrow> filesystem \<Rightarrow> outcome"
where
  "work_on_file mode file_to_parse_name keysToReadOrDelete keysToWrite fs =
     (case contents fs file_to_parse_name of
        None \<Rightarrow> finish 0 fs
      | Some bytes \<Rightarrow>
          if mode = mode_read then
            \<lparr>return_value = 0,
             stdout = read_mode (getlines bytes) keysToReadOrDelete,
             output_file = NotOpened, disk = fs\<rparr>
          else if mode = mode_write \<or> mode = mode_remove then
            (if \<not> writable fs file_to_parse_name then
               \<lparr>return_value = - 1, stdout = [], output_file = OpenFailed, disk = fs\<rparr>
             else
               \<lparr>return_value = 0, stdout = [], output_file = Opened,
                disk = fs\<lparr>contents := (contents fs)(file_to_parse_name \<mapsto>
                  persist (if mode = mode_write
                           then write_mode (getlines bytes) keysToWrite
                           else remove_mode (getlines bytes) keysToReadOrDelete))\<rparr>\<rparr>)
          else finish 0 fs)"

definition main :: "invocation \<Rightarrow> filesystem \<Rightarrow> outcome" where
  "main call fs =
     (if argc call < 2 then finish 0 fs
      else case getopt_loop (options call) [] mode_undefined of
        Inl rc \<Rightarrow> finish rc fs
      | Inr (file_to_parse_name, mode) \<Rightarrow>
          if file_to_parse_name = [] then finish (- 1) fs
          else if mode = mode_undefined then finish (- 1) fs
          else (case read_arguments mode (operands call) of
             None \<Rightarrow> finish (- 1) fs
           | Some (keysToReadOrDelete, args_to_write) \<Rightarrow>
               let keysToWrite = unique (\<lambda>a b. fst a = fst b) args_to_write in
               if keysToReadOrDelete = [] \<and> keysToWrite = [] \<and> keysToReadOrDelete = []
               then finish (- 1) fs
               else work_on_file mode file_to_parse_name keysToReadOrDelete keysToWrite fs))"

text \<open>The exit status the parent process sees: the low eight bits of the value returned.\<close>

definition exit_status :: "outcome \<Rightarrow> int" where
  "exit_status r = return_value r mod 256"

section \<open>Auxiliary notions for the statements\<close>

text \<open>
  A write set is \<open>settled\<close> when its keys are pairwise different and every pair, written
  out as the line \<open>key=value\<close>, is a line that has that key (lemma \<open>own_line_matches_iff\<close>
  below: the key is not empty, holds no delimiter and no surrounding whitespace, and the
  value is not empty).
\<close>

definition settled :: "(string \<times> string) list \<Rightarrow> bool" where
  "settled ws \<longleftrightarrow>
     distinct (map fst ws) \<and>
     list_all (\<lambda>kv. lineHasKey (key_value_line kv) (fst kv) \<noteq> None) ws"

text \<open>
  The matching of the specification (its \<^verbatim>\<open>MatchKey\<close>), written from its words, to be
  compared with \<^verbatim>\<open>lineHasKey\<close>: the index of the delimiter when the trimmed text
  before the delimiter equals the key and the delimiter is neither the first nor the last
  character of the line; a comment line never matches, whatever it holds; a line with no
  delimiter never matches.
\<close>

definition spec_MatchKey :: "string \<Rightarrow> string \<Rightarrow> nat option" where
  "spec_MatchKey line key =
     (if is_comment line then None
      else case find_first_of CHR ''='' line of
             None \<Rightarrow> None
           | Some i \<Rightarrow>
               if trim (take i line) = key \<and> i \<noteq> 0 \<and> i \<noteq> length line - 1
               then Some i else None)"

text \<open>
  Concrete runs: the file system that holds one readable file, and the invocation
  \<^verbatim>\<open>prog -f path -m operand ...\<close> for a mode flag \<open>m\<close>.
\<close>

definition one_file :: "string \<Rightarrow> string \<Rightarrow> bool \<Rightarrow> filesystem" where
  "one_file path bytes w =
     \<lparr>contents = (\<lambda>p. if p = path then Some bytes else None), writable = (\<lambda>p. w)\<rparr>"

definition no_file :: filesystem where
  "no_file = \<lparr>contents = (\<lambda>p. None), writable = (\<lambda>p. True)\<rparr>"

definition command :: "char \<Rightarrow> string \<Rightarrow> string list \<Rightarrow> invocation" where
  "command m path args =
     \<lparr>argc = 4 + length args, options = [(CHR ''f'', path), (m, [])], operands = args\<rparr>"

section \<open>Lemmas\<close>

lemmas string_defs = isspace_def ltrim_def rtrim_def trim_def lineHasKey_def is_comment_def
  key_value_line_def

lemmas run_defs = main_def work_on_file_def finish_def command_def one_file_def no_file_def
  getlines_def persist_def exit_status_def

subsection \<open>Matching\<close>

lemma lineHasKey_Some_iff:
  "lineHasKey line key = Some p \<longleftrightarrow>
     find_first_of CHR ''='' line = Some p \<and> 0 < p \<and> p < length line - 1 \<and> trim (take p line) = key"
  by (auto simp: lineHasKey_def split: option.splits)

lemma lineHasKey_one_key:
  "lineHasKey line k \<noteq> None \<Longrightarrow> lineHasKey line k' \<noteq> None \<Longrightarrow> k = k'"
  by (auto simp: lineHasKey_def split: option.splits if_splits)

subsection \<open>Delete mode as a filter\<close>

lemma remove_key_filter: "remove_key key ls = filter (\<lambda>l. lineHasKey l key = None) ls"
  by (induction ls) auto

lemma remove_keys_filter:
  "remove_keys keys ls = filter (\<lambda>l. \<forall>k\<in>set keys. lineHasKey l k = None) ls"
proof (induction keys arbitrary: ls)
  case Nil
  then show ?case by simp
next
  case (Cons k keys)
  have "remove_keys (k # keys) ls =
          filter (\<lambda>l. \<forall>k'\<in>set keys. lineHasKey l k' = None) (filter (\<lambda>l. lineHasKey l k = None) ls)"
    by (simp add: Cons.IH remove_key_filter)
  also have "\<dots> = filter (\<lambda>l. \<forall>k'\<in>set (k # keys). lineHasKey l k' = None) ls"
    by (simp add: conj_commute)
  finally show ?case .
qed

lemma set_unique_eq: "set (unique (=) xs) = set xs"
  by (induction "(=) :: 'a \<Rightarrow> 'a \<Rightarrow> bool" xs rule: unique.induct) auto

lemma remove_mode_filter:
  "remove_mode ls keys = filter (\<lambda>l. \<forall>k\<in>set keys. lineHasKey l k = None) ls"
  by (simp add: remove_mode_def remove_keys_filter set_unique_eq)

subsection \<open>Read mode as a search for the first matching line\<close>

lemma emplace_apply:
  "emplace m k v k' = (case m k' of Some w \<Rightarrow> Some w | None \<Rightarrow> if k' = k then Some v else None)"
  by (auto simp: emplace_def split: option.splits)

lemma read_line_apply:
  "read_line l keys m k =
     (case m k of
        Some w \<Rightarrow> Some w
      | None \<Rightarrow> (case lineHasKey l k of
                   Some p \<Rightarrow> if k \<in> set keys then Some (trim (drop (p + 1) l)) else None
                 | None \<Rightarrow> None))"
  by (induction keys arbitrary: m) (auto simp: emplace_apply split: option.splits)

lemma read_scan_apply:
  "read_scan ls keys m k =
     (case m k of
        Some w \<Rightarrow> Some w
      | None \<Rightarrow> if k \<in> set keys
                then map_option (\<lambda>l. trim (drop (the (lineHasKey l k) + 1) l))
                       (find (\<lambda>l. \<not> is_comment l \<and> lineHasKey l k \<noteq> None) ls)
                else None)"
  by (induction ls arbitrary: m) (auto simp: read_line_apply split: option.splits)

lemma read_mode_eq:
  "read_mode ls keys =
     map (\<lambda>k. case find (\<lambda>l. \<not> is_comment l \<and> lineHasKey l k \<noteq> None) ls of
                None \<Rightarrow> []
              | Some l \<Rightarrow> trim (drop (the (lineHasKey l k) + 1) l)) keys"
  by (auto simp: read_mode_def read_scan_apply split: option.splits)

subsection \<open>Write mode: one line, then the scan\<close>

lemma write_line_unmatched:
  "\<forall>kv\<in>set ws. lineHasKey l (fst kv) = None \<Longrightarrow> write_line l ws = (l, ws)"
  by (induction ws) auto

lemma write_line_subset:
  "write_line l ws = (l', ws') \<Longrightarrow> set ws' \<subseteq> set ws"
  by (induction l ws arbitrary: l' ws' rule: write_line.induct)
     (auto split: if_splits prod.splits)

lemma write_line_distinct:
  "write_line l ws = (l', ws') \<Longrightarrow> distinct (map fst ws) \<Longrightarrow> distinct (map fst ws')"
proof (induction l ws arbitrary: l' ws' rule: write_line.induct)
  case (1 line)
  then show ?case by simp
next
  case (2 line kv rest)
  show ?case
  proof (cases "lineHasKey line (fst kv) = None")
    case False
    with 2 show ?thesis by auto
  next
    case True
    obtain l1 r1 where w: "write_line line rest = (l1, r1)" by (cases "write_line line rest")
    with True "2.prems" have eq: "ws' = kv # r1" by auto
    from "2.IH"(2)[OF _ w] True "2.prems" have "distinct (map fst r1)" by auto
    moreover from write_line_subset[OF w] "2.prems"(2) have "fst kv \<notin> fst ` set r1" by auto
    ultimately show ?thesis using eq by simp
  qed
qed

lemma write_line_result:
  "write_line l ws = (l', ws') \<Longrightarrow> l' = l \<or> l' \<in> key_value_line ` set ws"
  by (induction l ws arbitrary: l' ws' rule: write_line.induct)
     (auto split: if_splits prod.splits)

lemma settled_key_fresh:
  "settled (kv # ws) \<Longrightarrow> kv' \<in> set ws \<Longrightarrow> fst kv' \<noteq> fst kv"
proof
  assume a: "settled (kv # ws)" "kv' \<in> set ws" "fst kv' = fst kv"
  from a(2) have "fst kv' \<in> fst ` set ws" by (rule imageI)
  with a(1,3) show False by (simp add: settled_def)
qed

lemma settled_Cons:
  "settled (kv # ws) \<Longrightarrow> settled ws \<and> write_line (key_value_line kv) ws = (key_value_line kv, ws)"
proof -
  assume a: "settled (kv # ws)"
  have "\<forall>kv'\<in>set ws. lineHasKey (key_value_line kv) (fst kv') = None"
  proof
    fix kv' assume "kv' \<in> set ws"
    with a have "fst kv' \<noteq> fst kv" by (rule settled_key_fresh)
    moreover from a have "lineHasKey (key_value_line kv) (fst kv) \<noteq> None" by (simp add: settled_def)
    ultimately show "lineHasKey (key_value_line kv) (fst kv') = None"
      using lineHasKey_one_key by blast
  qed
  with a show ?thesis by (simp add: settled_def write_line_unmatched)
qed

lemma write_line_settled:
  "settled ws \<Longrightarrow> write_line l ws = (l', ws') \<Longrightarrow> settled ws'"
  using write_line_subset[of l ws l' ws'] write_line_distinct[of l ws l' ws']
  by (auto simp: settled_def list_all_iff)

lemma write_line_again:
  "settled ws \<Longrightarrow> write_line l ws = (l', ws') \<Longrightarrow> write_line l' ws = (l', ws')"
proof (induction ws arbitrary: l' ws')
  case Nil
  then show ?case by simp
next
  case (Cons kv ws)
  from Cons.prems(1) have s: "settled ws"
    and own: "write_line (key_value_line kv) ws = (key_value_line kv, ws)"
    using settled_Cons by blast+
  from Cons.prems(1) have self: "lineHasKey (key_value_line kv) (fst kv) \<noteq> None"
    by (simp add: settled_def)
  show ?case
  proof (cases "lineHasKey l (fst kv) = None")
    case False
    with Cons.prems(2) own have "l' = key_value_line kv" "ws' = ws" by auto
    with self own show ?thesis by simp
  next
    case True
    obtain l1 r1 where w: "write_line l ws = (l1, r1)" by (cases "write_line l ws")
    with True Cons.prems(2) have eq: "l' = l1" "ws' = kv # r1" by auto
    have again: "write_line l1 ws = (l1, r1)" using Cons.IH[OF s w] .
    have "lineHasKey l1 (fst kv) = None"
    proof (cases "l1 = l")
      case True
      with \<open>lineHasKey l (fst kv) = None\<close> show ?thesis by simp
    next
      case False
      with write_line_result[OF w] obtain kv' where kv': "kv' \<in> set ws" "l1 = key_value_line kv'"
        by auto
      with Cons.prems(1) have "fst kv' \<noteq> fst kv" by (simp add: settled_key_fresh)
      moreover from s kv' have "lineHasKey l1 (fst kv') \<noteq> None"
        by (auto simp: settled_def list_all_iff)
      ultimately show ?thesis using lineHasKey_one_key by blast
    qed
    with again eq show ?thesis by simp
  qed
qed

lemma write_scan_again:
  "settled ws \<Longrightarrow> write_scan ls ws = (ls', ws') \<Longrightarrow> write_scan ls' ws = (ls', ws') \<and> settled ws'"
proof (induction ls arbitrary: ws ls' ws')
  case Nil
  then show ?case by auto
next
  case (Cons l ls)
  obtain l1 p1 where w: "write_line l ws = (l1, p1)" by (cases "write_line l ws")
  obtain r1 p2 where r: "write_scan ls p1 = (r1, p2)" by (cases "write_scan ls p1")
  from w r Cons.prems(2) have eq: "ls' = l1 # r1" "ws' = p2" by auto
  have s1: "settled p1" using write_line_settled[OF Cons.prems(1) w] .
  from Cons.IH[OF s1 r] write_line_again[OF Cons.prems(1) w] eq
  show ?case by simp
qed

lemma write_scan_append:
  "write_scan (xs @ ys) ws =
     (case write_scan xs ws of (xs', p) \<Rightarrow>
        case write_scan ys p of (ys', p') \<Rightarrow> (xs' @ ys', p'))"
  by (induction xs arbitrary: ws) (auto split: prod.splits)

lemma write_scan_own_lines:
  "settled ws \<Longrightarrow> write_scan (map key_value_line ws) ws = (map key_value_line ws, [])"
proof (induction ws)
  case Nil
  then show ?case by simp
next
  case (Cons kv ws)
  from settled_Cons[OF Cons.prems] have s: "settled ws"
    and own: "write_line (key_value_line kv) ws = (key_value_line kv, ws)" by blast+
  from Cons.prems have "lineHasKey (key_value_line kv) (fst kv) \<noteq> None"
    by (simp add: settled_def)
  with own Cons.IH[OF s] show ?case by simp
qed

lemma write_scan_frame:
  "write_scan ls ws = (ls', ws') \<Longrightarrow>
     length ls' = length ls \<and>
     (\<forall>i<length ls. (\<forall>kv\<in>set ws. lineHasKey (ls ! i) (fst kv) = None) \<longrightarrow> ls' ! i = ls ! i)"
proof (induction ls arbitrary: ws ls' ws')
  case Nil
  then show ?case by auto
next
  case (Cons l ls)
  obtain l1 p1 where w: "write_line l ws = (l1, p1)" by (cases "write_line l ws")
  obtain r1 p2 where r: "write_scan ls p1 = (r1, p2)" by (cases "write_scan ls p1")
  from w r Cons.prems have eq: "ls' = l1 # r1" by auto
  from write_line_subset[OF w] have sub: "set p1 \<subseteq> set ws" .
  from Cons.IH[OF r] have len: "length r1 = length ls"
    and fr: "\<forall>i<length ls. (\<forall>kv\<in>set p1. lineHasKey (ls ! i) (fst kv) = None) \<longrightarrow> r1 ! i = ls ! i"
    by blast+
  show ?case
  proof (intro conjI allI impI)
    show "length ls' = length (l # ls)" using eq len by simp
  next
    fix i assume i: "i < length (l # ls)"
      and un: "\<forall>kv\<in>set ws. lineHasKey ((l # ls) ! i) (fst kv) = None"
    show "ls' ! i = (l # ls) ! i"
    proof (cases i)
      case 0
      with un have "write_line l ws = (l, ws)" by (simp add: write_line_unmatched)
      with w eq 0 show ?thesis by simp
    next
      case (Suc j)
      with i un sub have "j < length ls" "\<forall>kv\<in>set p1. lineHasKey (ls ! j) (fst kv) = None"
        by auto
      with fr have "r1 ! j = ls ! j" by blast
      with eq Suc show ?thesis by simp
    qed
  qed
qed

subsection \<open>The delimiter, trimming and comment lines\<close>

lemma find_first_of_Some_iff:
  "find_first_of c s = Some p \<longleftrightarrow> p < length s \<and> s ! p = c \<and> c \<notin> set (take p s)"
proof (induction s arbitrary: p)
  case Nil
  then show ?case by simp
next
  case (Cons x xs)
  show ?case
  proof (cases "x = c")
    case True
    then show ?thesis by (cases p) auto
  next
    case False
    then show ?thesis using Cons.IH by (cases p) auto
  qed
qed

lemma find_first_of_None_iff: "find_first_of c s = None \<longleftrightarrow> c \<notin> set s"
  by (induction s) auto

lemma length_trim_le: "length (trim s) \<le> length s"
proof -
  have "length (trim s) \<le> length (rtrim s)"
    by (simp add: trim_def ltrim_def length_dropWhile_le)
  also have "\<dots> \<le> length s"
    using length_dropWhile_le[of isspace "rev s"] by (simp add: rtrim_def)
  finally show ?thesis .
qed

lemma own_line_matches_iff:
  "lineHasKey (key_value_line (k, v)) k \<noteq> None \<longleftrightarrow>
     k \<noteq> [] \<and> CHR ''='' \<notin> set k \<and> trim k = k \<and> v \<noteq> []"
proof (cases "CHR ''='' \<in> set k")
  case False
  then have "find_first_of CHR ''='' (k @ CHR ''='' # v) = Some (length k)"
    by (simp add: find_first_of_Some_iff)
  with False show ?thesis
    by (auto simp: lineHasKey_def key_value_line_def)
next
  case True
  then obtain p where p: "find_first_of CHR ''='' k = Some p"
    using find_first_of_None_iff[of "CHR ''=''" k] by (cases "find_first_of CHR ''='' k") auto
  then have pk: "p < length k" "k ! p = CHR ''=''" "CHR ''='' \<notin> set (take p k)"
    by (simp_all add: find_first_of_Some_iff)
  then have f: "find_first_of CHR ''='' (k @ CHR ''='' # v) = Some p"
    by (simp add: find_first_of_Some_iff nth_append)
  have "length (trim (take p (k @ CHR ''='' # v))) \<le> p"
    using length_trim_le[of "take p (k @ CHR ''='' # v)"] pk(1) by simp
  with pk(1) have "trim (take p (k @ CHR ''='' # v)) \<noteq> k" by auto
  with f True show ?thesis by (simp add: lineHasKey_def key_value_line_def)
qed

lemma settled_iff:
  "settled ws \<longleftrightarrow>
     distinct (map fst ws) \<and>
     (\<forall>kv\<in>set ws. fst kv \<noteq> [] \<and> CHR ''='' \<notin> set (fst kv) \<and> trim (fst kv) = fst kv \<and> snd kv \<noteq> [])"
proof -
  have "lineHasKey (key_value_line kv) (fst kv) \<noteq> None \<longleftrightarrow>
          fst kv \<noteq> [] \<and> CHR ''='' \<notin> set (fst kv) \<and> trim (fst kv) = fst kv \<and> snd kv \<noteq> []"
    for kv :: "string \<times> string"
    using own_line_matches_iff[of "fst kv" "snd kv"] by simp
  then show ?thesis by (simp add: settled_def list_all_iff)
qed

lemma dropWhile_keeps_last:
  "\<not> P x \<Longrightarrow> \<exists>ys. dropWhile P (xs @ [x]) = ys @ [x]"
  by (induction xs) auto

lemma is_comment_trim: "is_comment s \<Longrightarrow> is_comment (trim s)"
proof -
  assume "is_comment s"
  then obtain t where s: "s = CHR ''#'' # t" by (auto simp: is_comment_def split: list.splits)
  have ns: "\<not> isspace CHR ''#''" by (simp add: isspace_def)
  from dropWhile_keeps_last[of isspace "CHR ''#''" "rev t", OF ns] obtain ys where
    "dropWhile isspace (rev t @ [CHR ''#'']) = ys @ [CHR ''#'']" by blast
  with s have "rtrim s = CHR ''#'' # rev ys" by (simp add: rtrim_def)
  with ns show ?thesis by (simp add: trim_def ltrim_def is_comment_def)
qed

lemma comment_line_other_key:
  "is_comment line \<Longrightarrow> \<not> is_comment key \<Longrightarrow> lineHasKey line key = None"
proof (rule ccontr)
  assume c: "is_comment line" and k: "\<not> is_comment key" and "lineHasKey line key \<noteq> None"
  then obtain p where "lineHasKey line key = Some p" by auto
  then have p: "0 < p" "trim (take p line) = key" by (simp_all add: lineHasKey_Some_iff)
  from c p(1) have "is_comment (take p line)"
    by (cases p) (auto simp: is_comment_def split: list.splits)
  then have "is_comment key" using is_comment_trim p(2) by blast
  with k show False by simp
qed

lemma spec_MatchKey_eq:
  "spec_MatchKey line key = (if is_comment line then None else lineHasKey line key)"
proof (cases "find_first_of CHR ''='' line")
  case None
  then show ?thesis by (simp add: spec_MatchKey_def lineHasKey_def)
next
  case (Some i)
  then have "i < length line" by (simp add: find_first_of_Some_iff)
  then have "i \<noteq> length line - 1 \<longleftrightarrow> i < length line - 1" by arith
  with Some show ?thesis by (auto simp: spec_MatchKey_def lineHasKey_def)
qed

lemma spec_MatchKey_plain_key:
  "\<not> is_comment key \<Longrightarrow> spec_MatchKey line key = lineHasKey line key"
  using comment_line_other_key[of line key] by (simp add: spec_MatchKey_eq)

lemma read_arguments_read:
  "\<forall>arg\<in>set args. find_first_of CHR ''='' arg = None \<Longrightarrow>
     read_arguments mode_read args = Some (map trim args, [])"
  by (induction args) auto

lemma read_mode_each_key:
  "read_mode ls keys = concat (map (\<lambda>key. read_mode ls [key]) keys)"
  by (induction keys) (simp_all add: read_mode_eq)

subsection \<open>A target that cannot be read\<close>

lemma work_on_file_unreadable:
  "contents fs name = None \<Longrightarrow> work_on_file mode name keys kvs fs = finish 0 fs"
  by (simp add: work_on_file_def)

section \<open>Read mode: which line supplies the value\<close>

text \<open>
  C1. The claim: when a requested key matches more than one non-comment line, read mode
  emits the value of the last matching line. It does not: \<^verbatim>\<open>emplace\<close> leaves an entry
  that is already present alone, so for the file \<open>a=1\<close>, \<open>a=2\<close> the key \<open>a\<close> yields \<open>1\<close>.
\<close>

theorem read_last_match_counterexample:
  "lineHasKey ''a=1'' ''a'' = Some 1 \<and> lineHasKey ''a=2'' ''a'' = Some 1 \<and>
   read_mode [''a=1'', ''a=2''] [''a''] = [''1''] \<and>
   read_mode [''a=1'', ''a=2''] [''a''] \<noteq> [trim (drop (1 + 1) ''a=2'')]"
  by (simp add: read_mode_def emplace_def string_defs)

text \<open>
  C1, amended. The value emitted for a key is the trimmed value of the first non-comment
  line in file order that has the key: if line \<open>i\<close> is such a line with its delimiter at
  \<open>p\<close> and no earlier line is one, every output position that requests the key shows the
  trimmed text after position \<open>p\<close> of line \<open>i\<close>.
\<close>

theorem read_first_match_wins:
  assumes "i < length ls" and "\<not> is_comment (ls ! i)" and "lineHasKey (ls ! i) k = Some p"
    and "\<forall>j<i. is_comment (ls ! j) \<or> lineHasKey (ls ! j) k = None"
    and "n < length keys" and "keys ! n = k"
  shows "read_mode ls keys ! n = trim (drop (p + 1) (ls ! i))"
proof -
  let ?P = "\<lambda>l. \<not> is_comment l \<and> lineHasKey l k \<noteq> None"
  have "\<exists>i'<length ls. ?P (ls ! i') \<and> ls ! i = ls ! i' \<and> (\<forall>j<i'. \<not> ?P (ls ! j))"
    using assms(1-4) by (intro exI[of _ i]) auto
  then have "find ?P ls = Some (ls ! i)" by (simp only: find_Some_iff)
  with assms(3,5,6) show ?thesis by (simp add: read_mode_eq)
qed

theorem read_first_match_wins_witness:
  "read_mode [''#a=0'', ''a=1'', ''a=2''] [''b'', ''a''] ! 1 = ''1''"
proof -
  have "read_mode [''#a=0'', ''a=1'', ''a=2''] [''b'', ''a''] ! 1
          = trim (drop (1 + 1) ([''#a=0'', ''a=1'', ''a=2''] ! 1))"
    by (rule read_first_match_wins[where k = "''a''"]) (simp_all add: string_defs)
  then show ?thesis by (simp add: string_defs)
qed

section \<open>Write mode: the write set\<close>

text \<open>
  C2. The claim: duplicate keys among the write operands collapse to the first occurrence,
  also when the duplicates are not adjacent. \<^verbatim>\<open>std::list::unique\<close> only compares
  neighbours: for the operands \<open>a=1 b=2 a=3\<close> all three pairs stay in the write set, and on
  the file \<open>a=0\<close> the later pair overwrites what the first one wrote.
\<close>

theorem write_set_keeps_separated_duplicates:
  "read_arguments mode_write [''a=1'', ''b=2'', ''a=3'']
     = Some ([], [(''a'', ''1''), (''b'', ''2''), (''a'', ''3'')]) \<and>
   unique (\<lambda>a b. fst a = fst b) [(''a'', ''1''), (''b'', ''2''), (''a'', ''3'')]
     = [(''a'', ''1''), (''b'', ''2''), (''a'', ''3'')] \<and>
   unique (\<lambda>a b. fst a = fst b) [(''a'', ''1''), (''a'', ''3''), (''b'', ''2'')]
     = [(''a'', ''1''), (''b'', ''2'')] \<and>
   contents (disk (main (command CHR ''w'' ''cfg'' [''a=1'', ''b=2'', ''a=3''])
                        (one_file ''cfg'' ''a=0\<newline>'' True))) ''cfg''
     = Some ''a=3\<newline>b=2\<newline>''"
  by (simp add: run_defs write_mode_def string_defs)

text \<open>
  C3. The claim: writing the same write set twice gives the same lines as writing it once,
  for every write set. The operand \<open>k=\<close> followed by a blank is accepted and gives the pair
  of \<open>k\<close> and the empty value; the line \<open>k=\<close> it writes ends in the delimiter, which
  \<^verbatim>\<open>lineHasKey\<close> never matches, so every further run appends the line again. The same
  happens for a key that is trimmed to the empty string, and a write set that repeats a
  key at a distance rewrites the first line a second time.
\<close>

theorem write_idempotent_counterexample:
  "read_arguments mode_write [''k= ''] = Some ([], [(''k'', [])]) \<and>
   write_mode [] [(''k'', [])] = [''k=''] \<and>
   write_mode (write_mode [] [(''k'', [])]) [(''k'', [])] = [''k='', ''k=''] \<and>
   write_mode (write_mode [] [(''k'', [])]) [(''k'', [])] \<noteq> write_mode [] [(''k'', [])] \<and>
   read_arguments mode_write ['' =v''] = Some ([], [([], ''v'')]) \<and>
   write_mode [] [([], ''v'')] = [''=v''] \<and>
   write_mode (write_mode [] [([], ''v'')]) [([], ''v'')] = [''=v'', ''=v''] \<and>
   write_mode [] [(''a'', ''1''), (''b'', ''2''), (''a'', ''3'')] = [''a=1'', ''b=2'', ''a=3''] \<and>
   write_mode (write_mode [] [(''a'', ''1''), (''b'', ''2''), (''a'', ''3'')])
      [(''a'', ''1''), (''b'', ''2''), (''a'', ''3'')] = [''a=3'', ''b=2'', ''a=3'']"
  by (simp add: write_mode_def string_defs)

text \<open>
  C3, amended. For every line store and every settled write set (pairwise different keys,
  each pair written as a line being a line that has its key), writing twice gives the
  same lines as writing once.
\<close>

theorem write_idempotent:
  assumes "settled ws"
  shows "write_mode (write_mode ls ws) ws = write_mode ls ws"
proof -
  obtain ls' ws' where w: "write_scan ls ws = (ls', ws')" by (cases "write_scan ls ws")
  from write_scan_again[OF assms w]
  have a: "write_scan ls' ws = (ls', ws')" and s': "settled ws'" by blast+
  from w have "write_mode ls ws = ls' @ map key_value_line ws'" by (simp add: write_mode_def)
  moreover have "write_scan (ls' @ map key_value_line ws') ws = (ls' @ map key_value_line ws', [])"
    by (simp add: write_scan_append a write_scan_own_lines[OF s'])
  ultimately show ?thesis by (simp add: write_mode_def)
qed

theorem write_idempotent_witness:
  "settled [(''a'', ''10''), (''c'', ''3'')] \<and>
   write_mode (write_mode [''a=1'', ''#a=99'', ''b=2''] [(''a'', ''10''), (''c'', ''3'')])
      [(''a'', ''10''), (''c'', ''3'')]
     = [''a=10'', ''#a=99'', ''b=2'', ''c=3'']"
proof -
  have s: "settled [(''a'', ''10''), (''c'', ''3'')]"
    by (simp add: settled_def string_defs)
  have "write_mode [''a=1'', ''#a=99'', ''b=2''] [(''a'', ''10''), (''c'', ''3'')]
          = [''a=10'', ''#a=99'', ''b=2'', ''c=3'']"
    by (simp add: write_mode_def string_defs)
  with s write_idempotent[OF s, of "[''a=1'', ''#a=99'', ''b=2'']"] show ?thesis by simp
qed

section \<open>Lines that no key matches\<close>

text \<open>
  What write and delete mode leave alone, with matching taken as \<^verbatim>\<open>lineHasKey\<close> alone,
  the only test these two modes make: write mode keeps the length of the scanned part and
  every line that has none of the keys at its position; delete mode returns the lines that
  have none of the keys, in their order. For keys that do not begin with \<open>#\<close> this is
  the matching of the specification.
\<close>

lemma write_mode_frame:
  "length ls \<le> length (write_mode ls ws) \<and>
   (\<forall>i<length ls. (\<forall>kv\<in>set ws. lineHasKey (ls ! i) (fst kv) = None) \<longrightarrow>
        write_mode ls ws ! i = ls ! i)"
proof -
  obtain ls' ws' where w: "write_scan ls ws = (ls', ws')" by (cases "write_scan ls ws")
  from write_scan_frame[OF w] have len: "length ls' = length ls"
    and fr: "\<forall>i<length ls. (\<forall>kv\<in>set ws. lineHasKey (ls ! i) (fst kv) = None) \<longrightarrow> ls' ! i = ls ! i"
    by blast+
  from w have eq: "write_mode ls ws = ls' @ map key_value_line ws'" by (simp add: write_mode_def)
  have "\<forall>i<length ls. (\<forall>kv\<in>set ws. lineHasKey (ls ! i) (fst kv) = None) \<longrightarrow>
          write_mode ls ws ! i = ls ! i"
    using fr len by (simp add: eq nth_append)
  moreover have "length ls \<le> length (write_mode ls ws)" using len by (simp add: eq)
  ultimately show ?thesis by simp
qed

lemma write_mode_frame_spec:
  assumes "i < length ls" and "\<not> is_comment (ls ! i)"
    and "\<forall>kv\<in>set ws. spec_MatchKey (ls ! i) (fst kv) = None"
  shows "write_mode ls ws ! i = ls ! i"
  using assms write_mode_frame[of ls ws] by (simp add: spec_MatchKey_eq)

lemma remove_mode_spec:
  assumes "\<forall>k\<in>set keys. \<not> is_comment k"
  shows "remove_mode ls keys = filter (\<lambda>l. \<forall>k\<in>set keys. spec_MatchKey l k = None) ls"
proof -
  have "(\<forall>k\<in>set keys. spec_MatchKey l k = None) \<longleftrightarrow> (\<forall>k\<in>set keys. lineHasKey l k = None)" for l
    using assms by (simp add: spec_MatchKey_plain_key)
  then show ?thesis by (simp add: remove_mode_filter)
qed

lemma remove_mode_length:
  "length (remove_mode ls keys)
     = length ls - length (filter (\<lambda>l. \<exists>k\<in>set keys. lineHasKey l k \<noteq> None) ls)"
proof -
  let ?hit = "\<lambda>l. \<exists>k\<in>set keys. lineHasKey l k \<noteq> None"
  have r: "remove_mode ls keys = filter (\<lambda>l. \<not> ?hit l) ls"
    by (simp add: remove_mode_filter)
  have "length (filter ?hit ls) + length (remove_mode ls keys) = length ls"
    unfolding r by (rule sum_length_filter_compl)
  then show ?thesis by arith
qed

text \<open>
  C4. The claim: after a write or a delete, every line that matches none of the requested
  keys is in the result as it was. A comment line matches no key, yet write and delete
  mode test it with \<^verbatim>\<open>lineHasKey\<close> like any other line: for the file \<open>#a=99\<close>, \<open>b=2\<close>
  the run \<^verbatim>\<open>prog -f cfg -w '#a=1'\<close> rewrites the comment line and
  \<^verbatim>\<open>prog -f cfg -d '#a'\<close> removes it, although the line matches neither key.
\<close>

theorem comment_line_not_passed_through:
  "spec_MatchKey ''#a=99'' ''#a'' = None \<and>
   contents (disk (main (command CHR ''w'' ''cfg'' [''#a=1''])
                        (one_file ''cfg'' ''#a=99\<newline>b=2\<newline>'' True))) ''cfg''
     = Some ''#a=1\<newline>b=2\<newline>'' \<and>
   getlines ''#a=1\<newline>b=2\<newline>'' = [''#a=1'', ''b=2''] \<and>
   remove_mode (getlines ''#a=99\<newline>b=2\<newline>'') [''#a''] = [''b=2'']"
  by (simp add: run_defs spec_MatchKey_def remove_mode_def write_mode_def string_defs)

section \<open>Delete mode\<close>

text \<open>
  C5. The claim: delete removes exactly the lines that match a key of the delete set, so
  the length drops by the number of matching lines. For the file \<open>#a=99\<close>, \<open>b=2\<close> and the
  key \<open>#a\<close> no line matches (the first is a comment line, the second has another key),
  and the result still is one line shorter: the comment line is erased.
\<close>

theorem delete_count_off_on_comment_line:
  "filter (\<lambda>l. spec_MatchKey l ''#a'' \<noteq> None) [''#a=99'', ''b=2''] = [] \<and>
   length [''#a=99'', ''b=2'']
     - length (filter (\<lambda>l. spec_MatchKey l ''#a'' \<noteq> None) [''#a=99'', ''b=2'']) = 2 \<and>
   remove_mode [''#a=99'', ''b=2''] [''#a''] = [''b=2''] \<and>
   length (remove_mode [''#a=99'', ''b=2''] [''#a'']) = 1 \<and>
   read_arguments mode_remove [''#a''] = Some ([''#a''], [])"
  by (simp add: spec_MatchKey_def remove_mode_def string_defs)

section \<open>Exit status and the target file\<close>

text \<open>
  C6. The claim: the exit status is not zero whenever the target file cannot be opened
  for reading. When the input stream is not open the program only reports it and falls
  through to the final \<^verbatim>\<open>return 0\<close>; the sibling branch for the output stream returns
  \<open>-1\<close> (exit status 255).
\<close>

theorem read_open_failure_exits_zero:
  "exit_status (main (command CHR ''r'' ''missing'' [''a'']) no_file) = 0 \<and>
   exit_status (main (command CHR ''w'' ''missing'' [''a=1'']) no_file) = 0 \<and>
   exit_status (main (command CHR ''d'' ''missing'' [''a'']) no_file) = 0 \<and>
   exit_status (main (command CHR ''w'' ''cfg'' [''a=1'']) (one_file ''cfg'' ''a=0\<newline>'' False)) = 255"
  by (simp add: run_defs string_defs)

text \<open>
  C10. When the target file cannot be opened for reading, the output stream is never
  opened and the file system is left as it was, in every mode.
\<close>

theorem input_failure_leaves_file:
  assumes "getopt_loop (options call) [] mode_undefined = Inr (name, mode)"
    and "contents fs name = None"
  shows "output_file (main call fs) = NotOpened \<and> disk (main call fs) = fs"
  using assms
  by (simp add: main_def work_on_file_def finish_def Let_def split: option.split prod.split)

theorem input_failure_leaves_file_witness:
  "getopt_loop (options (command CHR ''w'' ''missing'' [''a=1''])) [] mode_undefined
     = Inr (''missing'', mode_write) \<and>
   contents no_file ''missing'' = None \<and>
   output_file (main (command CHR ''w'' ''missing'' [''a=1'']) no_file) = NotOpened \<and>
   disk (main (command CHR ''w'' ''missing'' [''a=1'']) no_file) = no_file"
proof -
  have g: "getopt_loop (options (command CHR ''w'' ''missing'' [''a=1''])) [] mode_undefined
             = Inr (''missing'', mode_write)"
    by (simp add: command_def)
  have c: "contents no_file ''missing'' = None" by (simp add: no_file_def)
  from input_failure_leaves_file[OF g c] g c show ?thesis by simp
qed

section \<open>Comment lines\<close>

text \<open>
  C7. The claim: a line whose first character is \<open>#\<close> is never matched, modified, removed
  or reported, also when the requested key begins with \<open>#\<close>. Only read mode skips such
  lines; \<^verbatim>\<open>lineHasKey\<close> itself does not look at the first character, so in delete and
  write mode the key \<open>#a\<close> matches the comment line \<open>#a=99\<close>, which is removed, respectively
  rewritten.
\<close>

theorem comment_line_matched_by_hash_key:
  "is_comment ''#a=99'' \<and> lineHasKey ''#a=99'' ''#a'' = Some 2 \<and>
   remove_mode [''#a=99'', ''b=2''] [''#a''] = [''b=2''] \<and>
   write_mode [''#a=99'', ''b=2''] [(''#a'', ''1'')] = [''#a=1'', ''b=2''] \<and>
   read_mode [''#a=99'', ''b=2''] [''#a''] = [[]] \<and>
   contents (disk (main (command CHR ''d'' ''cfg'' [''#a''])
                        (one_file ''cfg'' ''#a=99\<newline>b=2\<newline>'' True))) ''cfg''
     = Some ''b=2\<newline>''"
  by (simp add: run_defs remove_mode_def write_mode_def read_mode_def string_defs)

section \<open>Read mode: the output\<close>

text \<open>
  C8. The claim: the read set is deduplicated, so the output has one line per distinct
  requested key. Read mode never removes duplicates: \<^verbatim>\<open>prog -f cfg -r a a\<close> prints the
  value of \<open>a\<close> twice.
\<close>

theorem read_set_dedup_counterexample:
  "stdout (main (command CHR ''r'' ''cfg'' [''a'', ''a'']) (one_file ''cfg'' ''a=1\<newline>'' True))
     = [''1'', ''1''] \<and>
   remdups [''a'', ''a''] = [''a'']"
  by (simp add: run_defs read_mode_def emplace_def string_defs)

text \<open>
  C8, amended. The read set is the list of the operands as given, each trimmed, with its
  duplicates: a read-mode run on a file that opens prints exactly one line per operand,
  in operand order, and the line for an operand is the value that its key alone would
  yield.
\<close>

theorem read_output_per_operand:
  assumes "2 \<le> argc call"
    and "getopt_loop (options call) [] mode_undefined = Inr (name, mode_read)"
    and "name \<noteq> []"
    and "\<forall>arg\<in>set (operands call). find_first_of CHR ''='' arg = None"
    and "contents fs name = Some bytes"
  shows "stdout (main call fs)
           = concat (map (\<lambda>arg. read_mode (getlines bytes) [trim arg]) (operands call)) \<and>
         length (stdout (main call fs)) = length (operands call)"
proof -
  have "stdout (main call fs) = read_mode (getlines bytes) (map trim (operands call))"
    using assms by (simp add: main_def work_on_file_def finish_def read_arguments_read read_mode_def)
  moreover have "length (read_mode (getlines bytes) (map trim (operands call)))
                   = length (operands call)"
    by (simp add: read_mode_eq)
  moreover have "read_mode (getlines bytes) (map trim (operands call))
      = concat (map (\<lambda>arg. read_mode (getlines bytes) [trim arg]) (operands call))"
    using read_mode_each_key[of "getlines bytes" "map trim (operands call)"]
    by (simp add: comp_def)
  ultimately show ?thesis by simp
qed

theorem read_output_per_operand_witness:
  "stdout (main (command CHR ''r'' ''cfg'' [''b'', ''a'', ''b''])
                (one_file ''cfg'' ''a=1\<newline>b=2\<newline>'' True))
     = concat (map (\<lambda>arg. read_mode (getlines ''a=1\<newline>b=2\<newline>'') [trim arg]) [''b'', ''a'', ''b'']) \<and>
   length (stdout (main (command CHR ''r'' ''cfg'' [''b'', ''a'', ''b''])
                (one_file ''cfg'' ''a=1\<newline>b=2\<newline>'' True))) = 3"
  using read_output_per_operand[of "command CHR ''r'' ''cfg'' [''b'', ''a'', ''b'']" "''cfg''"
      "one_file ''cfg'' ''a=1\<newline>b=2\<newline>'' True" "''a=1\<newline>b=2\<newline>''"]
  by (simp add: command_def one_file_def getlines_def read_mode_def emplace_def string_defs)

text \<open>
  C9. Reads are total: when the file opens, read mode returns 0 and prints one value per
  key, and a key that no line of the file matches (every line is a comment line or does
  not have the key) gets the empty value at its position.
\<close>

theorem reads_total:
  assumes "contents fs name = Some bytes" and "i < length keys"
    and "\<forall>l\<in>set (getlines bytes). is_comment l \<or> lineHasKey l (keys ! i) = None"
  shows "return_value (work_on_file mode_read name keys kvs fs) = 0 \<and>
         length (stdout (work_on_file mode_read name keys kvs fs)) = length keys \<and>
         stdout (work_on_file mode_read name keys kvs fs) ! i = []"
proof -
  have "find (\<lambda>l. \<not> is_comment l \<and> lineHasKey l (keys ! i) \<noteq> None) (getlines bytes) = None"
    using assms(3) by (auto simp: find_None_iff)
  with assms(1,2) show ?thesis by (simp add: work_on_file_def read_mode_eq)
qed

theorem reads_total_witness:
  "return_value (work_on_file mode_read ''cfg'' [''a'', ''#c'', ''d'', ''b''] []
                   (one_file ''cfg'' ''a=1\<newline>#c=9\<newline>b=2\<newline>'' True)) = 0 \<and>
   stdout (work_on_file mode_read ''cfg'' [''a'', ''#c'', ''d'', ''b''] []
                   (one_file ''cfg'' ''a=1\<newline>#c=9\<newline>b=2\<newline>'' True)) ! 1 = [] \<and>
   lineHasKey ''#c=9'' ''#c'' = Some 2"
proof -
  have c: "contents (one_file ''cfg'' ''a=1\<newline>#c=9\<newline>b=2\<newline>'' True) ''cfg''
             = Some ''a=1\<newline>#c=9\<newline>b=2\<newline>''"
    by (simp add: one_file_def)
  have i: "1 < length [''a'', ''#c'', ''d'', ''b'']" by simp
  have n: "\<forall>l\<in>set (getlines ''a=1\<newline>#c=9\<newline>b=2\<newline>'').
             is_comment l \<or> lineHasKey l ([''a'', ''#c'', ''d'', ''b''] ! 1) = None"
    by (simp add: getlines_def string_defs)
  have "lineHasKey ''#c=9'' ''#c'' = Some 2" by (simp add: string_defs)
  with reads_total[OF c i n, of "[]"] show ?thesis by simp
qed

end
